theory Spec2Isabelle
  imports Main "HOL-Library.Word"
begin

unbundle bit_operations_syntax

section \<open>Data model of reader.go\<close>

type_synonym byte = "8 word"
type_synonym uint32 = "32 word"

text \<open>The constants of the \<^verbatim>\<open>const\<close> block that the decoder uses.\<close>

definition YAFFS_LOWEST_SEQUENCE_NUMBER :: uint32 where
  "YAFFS_LOWEST_SEQUENCE_NUMBER = 0x00001000"

definition YAFFS_HIGHEST_SEQUENCE_NUMBER :: uint32 where
  "YAFFS_HIGHEST_SEQUENCE_NUMBER = 0xefffff00"

definition YAFFS_SEQUENCE_BAD_BLOCK :: uint32 where
  "YAFFS_SEQUENCE_BAD_BLOCK = 0xffff0000"

definition EXTRA_HEADER_INFO_FLAG :: uint32 where
  "EXTRA_HEADER_INFO_FLAG = 0x80000000"

definition EXTRA_SHRINK_FLAG :: uint32 where
  "EXTRA_SHRINK_FLAG = 0x40000000"

definition EXTRA_SHADOWS_FLAG :: uint32 where
  "EXTRA_SHADOWS_FLAG = 0x20000000"

definition NOT_ALL_EXTRA_FLAGS :: uint32 where
  "NOT_ALL_EXTRA_FLAGS = 0xfffffff"

definition EXTRA_OBJECT_TYPE_SHIFT :: nat where
  "EXTRA_OBJECT_TYPE_SHIFT = 28"

definition NOT_EXTRA_OBJECT_TYPE_MASK :: uint32 where
  "NOT_EXTRA_OBJECT_TYPE_MASK = 0xfffffff"

definition YAFFS_OBJECT_SPACE :: uint32 where
  "YAFFS_OBJECT_SPACE = 0x40000"

definition YAFFS_MAX_OBJECT_ID :: uint32 where
  "YAFFS_MAX_OBJECT_ID = YAFFS_OBJECT_SPACE - 1"

definition YAFFS_TNODES_LEVEL0_BITS :: nat where
  "YAFFS_TNODES_LEVEL0_BITS = 4"

definition YAFFS_TNODES_INTERNAL_BITS :: nat where
  "YAFFS_TNODES_INTERNAL_BITS = YAFFS_TNODES_LEVEL0_BITS - 1"

definition YAFFS_TNODES_MAX_LEVEL :: nat where
  "YAFFS_TNODES_MAX_LEVEL = 8"

definition YAFFS_TNODES_MAX_BITS :: nat where
  "YAFFS_TNODES_MAX_BITS =
     YAFFS_TNODES_LEVEL0_BITS + YAFFS_TNODES_INTERNAL_BITS * YAFFS_TNODES_MAX_LEVEL"

definition YAFFS_MAX_CHUNK_ID :: uint32 where
  "YAFFS_MAX_CHUNK_ID = push_bit YAFFS_TNODES_MAX_BITS 1 - 1"

definition YAFFS_NOBJECT_BUCKETS :: uint32 where
  "YAFFS_NOBJECT_BUCKETS = 256"

text \<open>\<^verbatim>\<open>Yaffs2SpareRaw\<close>: the four 32-bit fields as they lie in the spare area.\<close>

record Yaffs2SpareRaw =
  SeqNumber :: uint32
  ObjectID :: uint32
  ChunkID :: uint32
  NumberBytes :: uint32

text \<open>\<^verbatim>\<open>Yaffs2Spare\<close>: the decoded tag. Go zero-initialises the fields that the
  struct literal in \<^verbatim>\<open>Parse\<close> leaves out.\<close>

record Yaffs2Spare =
  SeqNumber' :: uint32
  ObjectID' :: uint32
  ChunkID' :: uint32
  NumberBytes' :: uint32
  ExtraValid :: bool
  ParentID :: uint32
  IsShrink :: bool
  Shadows :: bool
  ObjType :: uint32

section \<open>The spare-tag decoder\<close>

text \<open>\<^verbatim>\<open>objectIDValid\<close>: the \<^verbatim>\<open>switch\<close> on the special ids, then the range test.\<close>

definition objectIDValid :: "uint32 \<Rightarrow> bool" where
  "objectIDValid objectID =
     (if objectID = 1 \<or> objectID = 2 \<or> objectID = 3 \<or> objectID = 4 \<or> objectID = 0x10
      then True
      else if objectID < YAFFS_NOBJECT_BUCKETS \<or> objectID > YAFFS_MAX_OBJECT_ID
      then False
      else True)"

text \<open>\<^verbatim>\<open>Yaffs2SpareRaw.Parse\<close>; the \<^verbatim>\<open>nil\<close> result is \<open>None\<close>.\<close>

definition Parse :: "Yaffs2SpareRaw \<Rightarrow> Yaffs2Spare option" where
  "Parse s =
     (if SeqNumber s = YAFFS_SEQUENCE_BAD_BLOCK \<or>
         SeqNumber s < YAFFS_LOWEST_SEQUENCE_NUMBER \<or>
         SeqNumber s > YAFFS_HIGHEST_SEQUENCE_NUMBER
      then None
      else
        let spare = \<lparr> SeqNumber' = SeqNumber s, ObjectID' = ObjectID s,
                       ChunkID' = ChunkID s, NumberBytes' = NumberBytes s,
                       ExtraValid = False, ParentID = 0, IsShrink = False,
                       Shadows = False, ObjType = 0 \<rparr>;
            spare =
              (if ChunkID s AND EXTRA_HEADER_INFO_FLAG \<noteq> 0
               then spare \<lparr> ChunkID' := 0, NumberBytes' := 0, ExtraValid := True,
                            ParentID := ChunkID s AND NOT_ALL_EXTRA_FLAGS,
                            IsShrink := (ChunkID s AND EXTRA_SHRINK_FLAG \<noteq> 0),
                            Shadows := (ChunkID s AND EXTRA_SHADOWS_FLAG \<noteq> 0),
                            ObjType := drop_bit EXTRA_OBJECT_TYPE_SHIFT (ObjectID s),
                            ObjectID' := ObjectID s AND NOT_EXTRA_OBJECT_TYPE_MASK \<rparr>
               else spare)
        in if \<not> objectIDValid (ObjectID' spare) \<or> ChunkID' spare > YAFFS_MAX_CHUNK_ID
           then None
           else Some spare)"

section \<open>Byte sources and fixed-layout records\<close>

datatype ByteOrder = LittleEndian | BigEndian

text \<open>\<^verbatim>\<open>Settings\<close>. The sizes are Go \<^verbatim>\<open>int\<close>s that only ever hold the positive
  literals of \<^verbatim>\<open>detectSettings\<close> and of the default in \<^verbatim>\<open>main\<close>.\<close>

record Settings =
  PageSize :: nat
  SpareSize :: nat
  SpareSkip :: nat
  ByteOrder :: ByteOrder

text \<open>What ends the process: \<^verbatim>\<open>log.Fatal\<close> after a failed \<^verbatim>\<open>binary.Read\<close>, the
  \<^verbatim>\<open>log.Fatal("Page / Spare Mismatch")\<close> of \<^verbatim>\<open>main\<close>, and the run-time panics of a slice
  expression or an index out of range.\<close>

datatype fatal = BinaryReadFailed | PageSpareMismatch | SliceBoundsOutOfRange | IndexOutOfRange

text \<open>The error value that \<^verbatim>\<open>detectSettings\<close> returns.\<close>

datatype error = NoSuitableSettings

text \<open>\<^verbatim>\<open>getEmptyBuf\<close> and \<^verbatim>\<open>checkBlockEmpty\<close>.\<close>

definition getEmptyBuf :: "nat \<Rightarrow> byte list" where
  "getEmptyBuf sz = replicate sz 0xFF"

fun checkBlockEmpty :: "byte list \<Rightarrow> bool" where
  "checkBlockEmpty [] = True"
| "checkBlockEmpty (v # buf) = (if v \<noteq> 0xFF then False else checkBlockEmpty buf)"

text \<open>The image is read through a cursor; the model keeps the bytes that lie after the
  cursor. \<^verbatim>\<open>io.ReadFull(image, buf)\<close> fills \<^verbatim>\<open>buf\<close> and moves the cursor, or fails
  (\<open>None\<close>) when fewer than \<^verbatim>\<open>len(buf)\<close> bytes are left; every caller leaves its loop
  at a failure and reads no further before the next \<^verbatim>\<open>Seek(0, 0)\<close>.\<close>

definition ReadFull :: "byte list \<Rightarrow> byte list \<Rightarrow> (byte list \<times> byte list) option" where
  "ReadFull rest buf =
     (if length rest < length buf then None
      else Some (take (length buf) rest, drop (length buf) rest))"

text \<open>\<^verbatim>\<open>ByteOrder.Uint32\<close> and \<^verbatim>\<open>ByteOrder.Uint64\<close> of \<^verbatim>\<open>encoding/binary\<close>, on a
  slice that the caller has checked to be long enough.\<close>

definition Uint32 :: "ByteOrder \<Rightarrow> byte list \<Rightarrow> uint32" where
  "Uint32 order b =
     (case order of
        LittleEndian \<Rightarrow>
          ucast (b ! 0) OR push_bit 8 (ucast (b ! 1)) OR
          push_bit 16 (ucast (b ! 2)) OR push_bit 24 (ucast (b ! 3))
      | BigEndian \<Rightarrow>
          ucast (b ! 3) OR push_bit 8 (ucast (b ! 2)) OR
          push_bit 16 (ucast (b ! 1)) OR push_bit 24 (ucast (b ! 0)))"

definition Uint64 :: "ByteOrder \<Rightarrow> byte list \<Rightarrow> 64 word" where
  "Uint64 order b =
     (case order of
        LittleEndian \<Rightarrow>
          ucast (Uint32 LittleEndian (take 4 b)) OR
          push_bit 32 (ucast (Uint32 LittleEndian (drop 4 b)))
      | BigEndian \<Rightarrow>
          ucast (Uint32 BigEndian (drop 4 b)) OR
          push_bit 32 (ucast (Uint32 BigEndian (take 4 b))))"

definition bytesAt :: "byte list \<Rightarrow> nat \<Rightarrow> nat \<Rightarrow> byte list" where
  "bytesAt b off n = take n (drop off b)"

text \<open>\<^verbatim>\<open>binary.Read(bytes.NewReader(spare[skip:]), order, &Yaffs2SpareRaw{})\<close>: the slice
  expression panics when \<^verbatim>\<open>skip\<close> exceeds the length, the read fails when fewer than
  the 16 bytes of the four fields are left.\<close>

definition readSpareRaw :: "ByteOrder \<Rightarrow> nat \<Rightarrow> byte list \<Rightarrow> fatal + Yaffs2SpareRaw" where
  "readSpareRaw order skip spare =
     (if skip > length spare then Inl SliceBoundsOutOfRange
      else
        let b = drop skip spare
        in if length b < 16 then Inl BinaryReadFailed
           else Inr \<lparr> SeqNumber = Uint32 order (bytesAt b 0 4),
                      ObjectID = Uint32 order (bytesAt b 4 4),
                      ChunkID = Uint32 order (bytesAt b 8 4),
                      NumberBytes = Uint32 order (bytesAt b 12 4) \<rparr>)"

text \<open>\<^verbatim>\<open>ObjectHeader\<close>, in the packed layout that \<^verbatim>\<open>binary.Read\<close> decodes: the fields
  follow each other without padding, 510 bytes in all. The \<^verbatim>\<open>int32\<close> fields keep their
  bit pattern.\<close>

record ObjectHeader =
  ObjectType :: uint32
  ParentObjectID :: uint32
  Checksum :: "byte list"
  Name :: "byte list"
  Mode :: uint32
  UID :: uint32
  GID :: uint32
  AccessTime :: uint32
  ModTime :: uint32
  CreateTime :: uint32
  FileSizeLow :: "byte list"
  EquivID :: uint32
  Alias :: "byte list"
  RDev :: uint32
  WinCreateTime :: "64 word"
  WinAccessTime :: "64 word"
  WinModTime :: "64 word"
  InbandShadowedObjectID :: uint32
  InbandIsShrink :: uint32
  FileSizeHigh :: "byte list"
  Reserved :: uint32
  ShadowsObject :: uint32
  IsShrink' :: uint32

definition YAFFS_MAX_NAME_LENGTH :: nat where
  "YAFFS_MAX_NAME_LENGTH = 255"

definition YAFFS_MAX_ALIAS_LENGTH :: nat where
  "YAFFS_MAX_ALIAS_LENGTH = 159"

definition sizeofObjectHeader :: nat where
  "sizeofObjectHeader = 510"

definition decodeObjectHeader :: "ByteOrder \<Rightarrow> byte list \<Rightarrow> fatal + ObjectHeader" where
  "decodeObjectHeader order page =
     (if length page < sizeofObjectHeader then Inl BinaryReadFailed
      else Inr \<lparr> ObjectType = Uint32 order (bytesAt page 0 4),
                 ParentObjectID = Uint32 order (bytesAt page 4 4),
                 Checksum = bytesAt page 8 2,
                 Name = bytesAt page 10 (YAFFS_MAX_NAME_LENGTH + 1),
                 Mode = Uint32 order (bytesAt page 266 4),
                 UID = Uint32 order (bytesAt page 270 4),
                 GID = Uint32 order (bytesAt page 274 4),
                 AccessTime = Uint32 order (bytesAt page 278 4),
                 ModTime = Uint32 order (bytesAt page 282 4),
                 CreateTime = Uint32 order (bytesAt page 286 4),
                 FileSizeLow = bytesAt page 290 4,
                 EquivID = Uint32 order (bytesAt page 294 4),
                 Alias = bytesAt page 298 (YAFFS_MAX_ALIAS_LENGTH + 1),
                 RDev = Uint32 order (bytesAt page 458 4),
                 WinCreateTime = Uint64 order (bytesAt page 462 8),
                 WinAccessTime = Uint64 order (bytesAt page 470 8),
                 WinModTime = Uint64 order (bytesAt page 478 8),
                 InbandShadowedObjectID = Uint32 order (bytesAt page 486 4),
                 InbandIsShrink = Uint32 order (bytesAt page 490 4),
                 FileSizeHigh = bytesAt page 494 4,
                 Reserved = Uint32 order (bytesAt page 498 4),
                 ShadowsObject = Uint32 order (bytesAt page 502 4),
                 IsShrink' = Uint32 order (bytesAt page 506 4) \<rparr>)"

text \<open>\<^verbatim>\<open>CToGoString\<close>: \<^verbatim>\<open>n\<close> is the index of the last byte before the first zero byte
  (\<open>-1\<close> when there is none), and the result is \<^verbatim>\<open>c[:n+1]\<close>.\<close>

fun lastBeforeNul :: "int \<Rightarrow> int \<Rightarrow> byte list \<Rightarrow> int" where
  "lastBeforeNul n i [] = n"
| "lastBeforeNul n i (b # c) = (if b = 0 then n else lastBeforeNul i (i + 1) c)"

definition CToGoString :: "byte list \<Rightarrow> byte list" where
  "CToGoString c = take (nat (lastBeforeNul (- 1) 0 c + 1)) c"

section \<open>Geometry detection\<close>

text \<open>The inner loop \<^verbatim>\<open>for x := 0; x <= 1; x++\<close> of \<^verbatim>\<open>detectSettings\<close>, which reads up to
  two page and spare buffers for analysis.\<close>

function detectRead ::
  "nat \<Rightarrow> nat \<Rightarrow> nat \<Rightarrow> byte list \<Rightarrow> byte list list \<Rightarrow> byte list list \<Rightarrow>
     byte list list \<times> byte list list" where
  "detectRead pageSize spareSize x rest pages spares =
     (if x \<le> 1 then
        (case ReadFull rest (getEmptyBuf pageSize) of
           None \<Rightarrow> (pages, spares)
         | Some (pageBuf, rest1) \<Rightarrow>
             (case ReadFull rest1 (getEmptyBuf spareSize) of
                None \<Rightarrow> (pages, spares)
              | Some (spareBuf, rest2) \<Rightarrow>
                  if checkBlockEmpty pageBuf \<and> checkBlockEmpty spareBuf then (pages, spares)
                  else detectRead pageSize spareSize (x + 1) rest2
                         (pages @ [pageBuf]) (spares @ [spareBuf])))
      else (pages, spares))"
  by pat_completeness auto
termination
  by (relation "measure (\<lambda>(pageSize, spareSize, x, rest, pages, spares). 2 - x)") auto

text \<open>The body of the innermost \<^verbatim>\<open>for\<close> loop for one candidate: \<^verbatim>\<open>Seek(0, 0)\<close> puts the
  cursor back at the start of the image; \<open>Inr None\<close> is \<^verbatim>\<open>continue\<close>, \<open>Inr (Some s)\<close>
  is \<^verbatim>\<open>return settings, nil\<close>, \<open>Inl\<close> is \<^verbatim>\<open>log.Fatal\<close> or a panic.\<close>

definition probe :: "byte list \<Rightarrow> nat \<Rightarrow> nat \<Rightarrow> nat \<Rightarrow> fatal + Settings option" where
  "probe img pageSize spareSize spareSkip =
     (let byteOrder = LittleEndian
      in (case detectRead pageSize spareSize 0 img [] [] of
            (pages, spares) \<Rightarrow>
              if length pages < 2 \<or> length pages \<noteq> length spares then Inr None
              else
                (case readSpareRaw byteOrder spareSkip (spares ! 0) of
                   Inl f \<Rightarrow> Inl f
                 | Inr firstSpareRaw \<Rightarrow>
                     (case Parse firstSpareRaw of
                        None \<Rightarrow> Inr None
                      | Some firstSpare \<Rightarrow>
                          if ChunkID' firstSpare \<noteq> 0 then Inr None
                          else
                            (case readSpareRaw byteOrder spareSkip (spares ! 1) of
                               Inl f \<Rightarrow> Inl f
                             | Inr secondSpareRaw \<Rightarrow>
                                 (case Parse secondSpareRaw of
                                    None \<Rightarrow> Inr None
                                  | Some secondSpare \<Rightarrow>
                                      Inr (Some \<lparr> PageSize = pageSize,
                                                   SpareSize = spareSize,
                                                   SpareSkip = spareSkip,
                                                   ByteOrder = byteOrder \<rparr>)))))))"

text \<open>The three nested \<^verbatim>\<open>for ... range\<close> loops. Beside the outcome each loop returns the
  candidates whose body it has run, in order: one entry for every \<^verbatim>\<open>Seek(0, 0)\<close>.\<close>

type_synonym candidate = "nat \<times> nat \<times> nat"

fun skipLoop ::
  "byte list \<Rightarrow> nat \<Rightarrow> nat \<Rightarrow> nat list \<Rightarrow> candidate list \<times> (fatal + Settings option)" where
  "skipLoop img pageSize spareSize [] = ([], Inr None)"
| "skipLoop img pageSize spareSize (spareSkip # skips) =
     (case probe img pageSize spareSize spareSkip of
        Inr None \<Rightarrow>
          (case skipLoop img pageSize spareSize skips of
             (probed, r) \<Rightarrow> ((pageSize, spareSize, spareSkip) # probed, r))
      | r \<Rightarrow> ([(pageSize, spareSize, spareSkip)], r))"

fun spareLoop ::
  "byte list \<Rightarrow> nat \<Rightarrow> nat list \<Rightarrow> nat list \<Rightarrow> candidate list \<times> (fatal + Settings option)" where
  "spareLoop img pageSize [] skips = ([], Inr None)"
| "spareLoop img pageSize (spareSize # sizes) skips =
     (case skipLoop img pageSize spareSize skips of
        (probed, Inr None) \<Rightarrow>
          (case spareLoop img pageSize sizes skips of
             (probed', r) \<Rightarrow> (probed @ probed', r))
      | (probed, r) \<Rightarrow> (probed, r))"

fun pageLoop ::
  "byte list \<Rightarrow> nat list \<Rightarrow> nat list \<Rightarrow> nat list \<Rightarrow> candidate list \<times> (fatal + Settings option)" where
  "pageLoop img [] sizes skips = ([], Inr None)"
| "pageLoop img (pageSize # pageSizes) sizes skips =
     (case spareLoop img pageSize sizes skips of
        (probed, Inr None) \<Rightarrow>
          (case pageLoop img pageSizes sizes skips of
             (probed', r) \<Rightarrow> (probed @ probed', r))
      | (probed, r) \<Rightarrow> (probed, r))"

definition pageSizes :: "nat list" where
  "pageSizes = [1024, 2048, 4096, 8192, 16384]"

definition spareSizes :: "nat list" where
  "spareSizes = [32, 64, 128, 256, 512]"

definition spareSkip :: "nat list" where
  "spareSkip = [0, 2]"

text \<open>\<^verbatim>\<open>detectSettings\<close>: the settings of the first candidate that passes, or the error
  \<^verbatim>\<open>errors.New("no suitable settings detected")\<close> after the loops have run out.\<close>

definition detectSettings ::
  "byte list \<Rightarrow> candidate list \<times> (fatal + (error + Settings))" where
  "detectSettings img =
     (case pageLoop img pageSizes spareSizes spareSkip of
        (probed, Inl f) \<Rightarrow> (probed, Inl f)
      | (probed, Inr (Some settings)) \<Rightarrow> (probed, Inr (Inr settings))
      | (probed, Inr None) \<Rightarrow> (probed, Inr (Inl NoSuitableSettings)))"

section \<open>The scan of \<^verbatim>\<open>main\<close>\<close>

text \<open>The first loop of \<^verbatim>\<open>main\<close>, which collects the page and spare buffers.\<close>

function readLoop ::
  "nat \<Rightarrow> nat \<Rightarrow> byte list \<Rightarrow> byte list list \<Rightarrow> byte list list \<Rightarrow>
     byte list list \<times> byte list list" where
  "readLoop pageSize spareSize rest pages spares =
     (case ReadFull rest (getEmptyBuf pageSize) of
        None \<Rightarrow> (pages, spares)
      | Some (pageBuf, rest1) \<Rightarrow>
          (case ReadFull rest1 (getEmptyBuf spareSize) of
             None \<Rightarrow> (pages, spares)
           | Some (spareBuf, rest2) \<Rightarrow>
               if checkBlockEmpty pageBuf \<and> checkBlockEmpty spareBuf then (pages, spares)
               else readLoop pageSize spareSize rest2
                      (pages @ [pageBuf]) (spares @ [spareBuf])))"
  by pat_completeness auto
termination
proof (relation "measure (\<lambda>(pageSize, spareSize, rest, pages, spares). length rest)", goal_cases)
  case 1
  show ?case by simp
next
  case (2 pageSize spareSize rest pages spares x2 pageBuf rest1 x2a spareBuf rest2)
  from 2(1,2) have page: "pageBuf = take pageSize rest" "rest1 = drop pageSize rest"
    and lp: "pageSize \<le> length rest"
    by (auto simp: ReadFull_def getEmptyBuf_def split: if_splits)
  from 2(3,4) have spare: "spareBuf = take spareSize rest1" "rest2 = drop spareSize rest1"
    and ls: "spareSize \<le> length rest1"
    by (auto simp: ReadFull_def getEmptyBuf_def split: if_splits)
  from 2(5) have "pageBuf \<noteq> [] \<or> spareBuf \<noteq> []"
    by auto
  with page spare have "0 < pageSize \<or> 0 < spareSize"
    by auto
  with page spare lp ls show ?case
    by auto
qed

text \<open>How the second loop of \<^verbatim>\<open>main\<close> ends: it runs through all pairs, it leaves by
  \<^verbatim>\<open>break\<close> at a header whose checksum field is not \<^verbatim>\<open>FF FF\<close>, or the process dies.\<close>

datatype status = Finished | Stopped | Died fatal

text \<open>The second loop of \<^verbatim>\<open>main\<close>, \<^verbatim>\<open>for k := range pages\<close>, with \<^verbatim>\<open>pages[k]\<close> and
  \<^verbatim>\<open>spares[k]\<close> as the heads of the two lists. Its output is the sequence of headers it
  prints (\<^verbatim>\<open>header.ObjectType\<close> and \<^verbatim>\<open>CToGoString(header.Name[:])\<close>); the diagnostic
  lines for a skipped pair and for a bad header are not part of the output.\<close>

type_synonym header_line = "uint32 \<times> byte list"

fun scanLoop ::
  "Settings \<Rightarrow> byte list list \<Rightarrow> byte list list \<Rightarrow> header_line list \<times> status" where
  "scanLoop settings [] spares = ([], Finished)"
| "scanLoop settings (page # pages) [] = ([], Died IndexOutOfRange)"
| "scanLoop settings (page # pages) (spareBuf # spares) =
     (case readSpareRaw (ByteOrder settings) (SpareSkip settings) spareBuf of
        Inl f \<Rightarrow> ([], Died f)
      | Inr spareRaw \<Rightarrow>
          (case Parse spareRaw of
             None \<Rightarrow> scanLoop settings pages spares
           | Some spare \<Rightarrow>
               if ChunkID' spare = 0 then
                 (case decodeObjectHeader (ByteOrder settings) page of
                    Inl f \<Rightarrow> ([], Died f)
                  | Inr header \<Rightarrow>
                      if Checksum header \<noteq> [0xFF, 0xFF] then ([], Stopped)
                      else
                        (case scanLoop settings pages spares of
                           (headers, r) \<Rightarrow>
                             ((ObjectType header, CToGoString (Name header)) # headers, r)))
               else scanLoop settings pages spares))"

text \<open>\<^verbatim>\<open>main\<close> from the \<^verbatim>\<open>Seek(0, 0)\<close> after detection to its end: the read loop, the
  length test and the scan loop. The configuration file that \<^verbatim>\<open>main\<close> writes in between
  does not touch the image.\<close>

definition scanImage :: "Settings \<Rightarrow> byte list \<Rightarrow> header_line list \<times> status" where
  "scanImage settings img =
     (case readLoop (PageSize settings) (SpareSize settings) img [] [] of
        (pages, spares) \<Rightarrow>
          if length pages \<noteq> length spares then ([], Died PageSpareMismatch)
          else scanLoop settings pages spares)"

text \<open>The choice of settings at the start of \<^verbatim>\<open>main\<close>: the detected ones, or the fixed
  default when \<^verbatim>\<open>detectSettings\<close> returns an error.\<close>

definition chooseSettings :: "byte list \<Rightarrow> fatal + Settings" where
  "chooseSettings img =
     (case snd (detectSettings img) of
        Inl f \<Rightarrow> Inl f
      | Inr (Inl err) \<Rightarrow>
          Inr \<lparr> PageSize = 2048, SpareSize = 64, SpareSkip = 0, ByteOrder = LittleEndian \<rparr>
      | Inr (Inr settings) \<Rightarrow> Inr settings)"

definition main :: "byte list \<Rightarrow> header_line list \<times> status" where
  "main img =
     (case chooseSettings img of
        Inl f \<Rightarrow> ([], Died f)
      | Inr settings \<Rightarrow> scanImage settings img)"

section \<open>The specification's view of the image\<close>

text \<open>The definitions of this section follow the words of the specification, not the code;
  the theorems below compare the two.

  A buffer is blank when it consists entirely of the fill byte \<^verbatim>\<open>0xFF\<close>.\<close>

definition spec_blank :: "byte list \<Rightarrow> bool" where
  "spec_blank buf = list_all (\<lambda>b. b = 0xFF) buf"

text \<open>Under page size \<open>P\<close> and spare size \<open>S\<close> the image is a sequence of (page, spare)
  pairs; pair \<open>i\<close> starts at offset \<open>i * (P + S)\<close>. It is full when the image holds all
  of its bytes, and live when it is full and not blank in both halves.\<close>

definition spec_pageAt :: "nat \<Rightarrow> nat \<Rightarrow> byte list \<Rightarrow> nat \<Rightarrow> byte list" where
  "spec_pageAt P S img i = take P (drop (i * (P + S)) img)"

definition spec_spareAt :: "nat \<Rightarrow> nat \<Rightarrow> byte list \<Rightarrow> nat \<Rightarrow> byte list" where
  "spec_spareAt P S img i = take S (drop (i * (P + S) + P) img)"

definition spec_full :: "nat \<Rightarrow> nat \<Rightarrow> byte list \<Rightarrow> nat \<Rightarrow> bool" where
  "spec_full P S img i = ((i + 1) * (P + S) \<le> length img)"

definition spec_live :: "nat \<Rightarrow> nat \<Rightarrow> byte list \<Rightarrow> nat \<Rightarrow> bool" where
  "spec_live P S img i =
     (spec_full P S img i \<and>
      \<not> (spec_blank (spec_pageAt P S img i) \<and> spec_blank (spec_spareAt P S img i)))"

text \<open>The raw spare record: four little-endian 32-bit fields at offset \<open>skip\<close> of the
  spare area.\<close>

definition spec_rawTag :: "nat \<Rightarrow> byte list \<Rightarrow> Yaffs2SpareRaw" where
  "spec_rawTag skip spare =
     \<lparr> SeqNumber = Uint32 LittleEndian (bytesAt spare skip 4),
       ObjectID = Uint32 LittleEndian (bytesAt spare (skip + 4) 4),
       ChunkID = Uint32 LittleEndian (bytesAt spare (skip + 8) 4),
       NumberBytes = Uint32 LittleEndian (bytesAt spare (skip + 12) 4) \<rparr>"

text \<open>The candidate geometries: the Cartesian product of page sizes (outermost), spare
  sizes and skip offsets (innermost), in enumeration order.\<close>

definition candidates :: "candidate list" where
  "candidates =
     concat (map (\<lambda>P. concat (map (\<lambda>S. map (\<lambda>K. (P, S, K)) [0, 2])
                                     [32, 64, 128, 256, 512]))
                 [1024, 2048, 4096, 8192, 16384])"

text \<open>A candidate passes when pairs 0 and 1 are live, the tag of pair 0 decodes as valid
  with chunk id 0, and the tag of pair 1 decodes as valid.\<close>

definition spec_candidateOK :: "byte list \<Rightarrow> candidate \<Rightarrow> bool" where
  "spec_candidateOK img c =
     (case c of (P, S, K) \<Rightarrow>
        spec_live P S img 0 \<and> spec_live P S img 1 \<and>
        (case Parse (spec_rawTag K (spec_spareAt P S img 0)) of
           None \<Rightarrow> False
         | Some tag \<Rightarrow> ChunkID' tag = 0) \<and>
        Parse (spec_rawTag K (spec_spareAt P S img 1)) \<noteq> None)"

definition settingsOf :: "candidate \<Rightarrow> Settings" where
  "settingsOf c =
     (case c of (P, S, K) \<Rightarrow>
        \<lparr> PageSize = P, SpareSize = S, SpareSkip = K, ByteOrder = LittleEndian \<rparr>)"

text \<open>The extended record as the specification describes it, read as a packing: the
  header-info flag, the shrink and shadow flags and the parent id share the chunk id
  field, the object type sits in the top four bits of the object id field. (The
  repository only decodes; this is the encoding that the round-trip property speaks of.)\<close>

definition spec_encodeExtended ::
  "uint32 \<Rightarrow> uint32 \<Rightarrow> uint32 \<Rightarrow> bool \<Rightarrow> bool \<Rightarrow> uint32 \<Rightarrow> Yaffs2SpareRaw" where
  "spec_encodeExtended seq ob parent shrink shadows objType =
     \<lparr> SeqNumber = seq,
       ObjectID = ob OR push_bit 28 objType,
       ChunkID = 0x80000000 OR (if shrink then 0x40000000 else 0) OR
                 (if shadows then 0x20000000 else 0) OR parent,
       NumberBytes = 0 \<rparr>"

text \<open>First match over a list of candidates: the candidates examined, up to and
  including the first one that passes, and that candidate if there is one.\<close>

definition firstMatch :: "('a \<Rightarrow> bool) \<Rightarrow> 'a list \<Rightarrow> 'a list \<times> 'a option" where
  "firstMatch ok cs =
     (takeWhile (\<lambda>c. \<not> ok c) cs @ take 1 (dropWhile (\<lambda>c. \<not> ok c) cs), List.find ok cs)"

declare detectRead.simps [simp del] readLoop.simps [simp del]

section \<open>Facts about the constants\<close>

lemma YAFFS_MAX_CHUNK_ID_value: "YAFFS_MAX_CHUNK_ID = 0xfffffff"
  by (simp add: YAFFS_MAX_CHUNK_ID_def YAFFS_TNODES_MAX_BITS_def
      YAFFS_TNODES_INTERNAL_BITS_def YAFFS_TNODES_LEVEL0_BITS_def YAFFS_TNODES_MAX_LEVEL_def)

lemma YAFFS_MAX_OBJECT_ID_value: "YAFFS_MAX_OBJECT_ID = 0x3ffff"
  by (simp add: YAFFS_MAX_OBJECT_ID_def YAFFS_OBJECT_SPACE_def)

lemmas yaffs_consts =
  YAFFS_LOWEST_SEQUENCE_NUMBER_def YAFFS_HIGHEST_SEQUENCE_NUMBER_def
  YAFFS_SEQUENCE_BAD_BLOCK_def EXTRA_HEADER_INFO_FLAG_def EXTRA_SHRINK_FLAG_def
  EXTRA_SHADOWS_FLAG_def NOT_ALL_EXTRA_FLAGS_def EXTRA_OBJECT_TYPE_SHIFT_def
  NOT_EXTRA_OBJECT_TYPE_MASK_def YAFFS_NOBJECT_BUCKETS_def
  YAFFS_MAX_CHUNK_ID_value YAFFS_MAX_OBJECT_ID_value

section \<open>Object ids\<close>

text \<open>Claim C5. \<^verbatim>\<open>objectIDValid\<close> is true for exactly the ids 1, 2, 3, 4 and 16 and for
  every id from 256 to \<^verbatim>\<open>0x3ffff\<close>, and false for every other 32-bit value; in
  particular it is false for 0, 5, 255 and \<^verbatim>\<open>0x40000\<close>.\<close>

theorem objectIDValid_exact:
  "(objectIDValid x \<longleftrightarrow> x \<in> {1, 2, 3, 4, 16} \<or> (256 \<le> x \<and> x \<le> 0x3ffff)) \<and>
   \<not> objectIDValid 0 \<and> \<not> objectIDValid 5 \<and> \<not> objectIDValid 255 \<and>
   \<not> objectIDValid 0x40000"
  by (auto simp: objectIDValid_def yaffs_consts)

theorem objectIDValid_exact_witness:
  "objectIDValid 16 \<and> objectIDValid 256 \<and> objectIDValid 0x3ffff \<and> \<not> objectIDValid 17"
  using objectIDValid_exact [of 16] objectIDValid_exact [of 256]
    objectIDValid_exact [of "0x3ffff"] objectIDValid_exact [of 17]
  by simp

section \<open>The sequence-number check\<close>

text \<open>Claim C1, as the code has it. A raw record with sequence number \<open>s\<close> is rejected
  whatever its other fields are exactly when \<open>s < 0x1000\<close> or \<open>s > 0xefffff00\<close> (the
  bad-block value \<^verbatim>\<open>0xffff0000\<close> lies above the upper bound). For sequence numbers from
  \<^verbatim>\<open>0x1000\<close> to \<^verbatim>\<open>0xefffff00\<close>, both included, the sequence number takes no part in
  the decision: two records that differ only there are both rejected or both accepted.\<close>

theorem Parse_seqNumber_check:
  "((\<forall>ob c n. Parse \<lparr> SeqNumber = s, ObjectID = ob, ChunkID = c, NumberBytes = n \<rparr> = None)
      \<longleftrightarrow> s < 0x1000 \<or> 0xefffff00 < s) \<and>
   (0x1000 \<le> s \<and> s \<le> 0xefffff00 \<and> 0x1000 \<le> s' \<and> s' \<le> 0xefffff00 \<longrightarrow>
      (Parse (r \<lparr> SeqNumber := s \<rparr>) = None \<longleftrightarrow> Parse (r \<lparr> SeqNumber := s' \<rparr>) = None))"
proof (intro conjI iffI impI)
  assume "\<forall>ob c n. Parse \<lparr> SeqNumber = s, ObjectID = ob, ChunkID = c, NumberBytes = n \<rparr> = None"
  then have "Parse \<lparr> SeqNumber = s, ObjectID = 1, ChunkID = 0, NumberBytes = 0 \<rparr> = None"
    by blast
  then show "s < 0x1000 \<or> 0xefffff00 < s"
    by (auto simp: Parse_def objectIDValid_def yaffs_consts split: if_splits)
next
  assume "s < 0x1000 \<or> 0xefffff00 < s"
  then show "\<forall>ob c n. Parse \<lparr> SeqNumber = s, ObjectID = ob, ChunkID = c, NumberBytes = n \<rparr> = None"
    by (auto simp: Parse_def yaffs_consts)
next
  assume "0x1000 \<le> s \<and> s \<le> 0xefffff00 \<and> 0x1000 \<le> s' \<and> s' \<le> 0xefffff00"
    and "Parse (r \<lparr> SeqNumber := s \<rparr>) = None"
  then show "Parse (r \<lparr> SeqNumber := s' \<rparr>) = None"
    by (auto simp: Parse_def Let_def yaffs_consts split: if_splits)
next
  assume "0x1000 \<le> s \<and> s \<le> 0xefffff00 \<and> 0x1000 \<le> s' \<and> s' \<le> 0xefffff00"
    and "Parse (r \<lparr> SeqNumber := s' \<rparr>) = None"
  then show "Parse (r \<lparr> SeqNumber := s \<rparr>) = None"
    by (auto simp: Parse_def Let_def yaffs_consts split: if_splits)
qed

theorem Parse_seqNumber_check_witness:
  "(\<forall>ob c n. Parse \<lparr> SeqNumber = 0xfff, ObjectID = ob, ChunkID = c, NumberBytes = n \<rparr> = None) \<and>
   \<not> (\<forall>ob c n. Parse \<lparr> SeqNumber = 0xefffff00, ObjectID = ob, ChunkID = c,
                      NumberBytes = n \<rparr> = None) \<and>
   (Parse \<lparr> SeqNumber = 0x1000, ObjectID = 5, ChunkID = 0, NumberBytes = 0 \<rparr> = None \<longleftrightarrow>
    Parse \<lparr> SeqNumber = 0xefffff00, ObjectID = 5, ChunkID = 0, NumberBytes = 0 \<rparr> = None)"
  using Parse_seqNumber_check [of "0xfff"] Parse_seqNumber_check [of "0xefffff00"]
    Parse_seqNumber_check [of "0x1000" "0xefffff00"
      "\<lparr> SeqNumber = 0, ObjectID = 5, ChunkID = 0, NumberBytes = 0 \<rparr>"]
  by simp

text \<open>The claim as written puts \<^verbatim>\<open>0xefffff00\<close> itself among the rejected sequence
  numbers; the decoder accepts a tag that carries it.\<close>

theorem Parse_seqNumber_counterexample:
  "(0xefffff00 :: uint32) \<ge> 0xefffff00 \<and>
   Parse \<lparr> SeqNumber = 0xefffff00, ObjectID = 1, ChunkID = 0, NumberBytes = 0 \<rparr> =
     Some \<lparr> SeqNumber' = 0xefffff00, ObjectID' = 1, ChunkID' = 0, NumberBytes' = 0,
            ExtraValid = False, ParentID = 0, IsShrink = False, Shadows = False,
            ObjType = 0 \<rparr>"
  by (simp add: Parse_def objectIDValid_def yaffs_consts)

section \<open>Extended and plain tags\<close>

text \<open>Bits of the flag constants and of values that fit the low 28 or the low 4 bits.\<close>

lemma low28: "(p :: uint32) \<le> 0xfffffff \<Longrightarrow> take_bit 28 p = p"
proof -
  assume "p \<le> 0xfffffff"
  then have "p < 2 ^ 28"
    by (simp add: word_le_nat_alt word_less_nat_alt)
  then show ?thesis
    by (simp add: take_bit_eq_mask less_mask_eq)
qed

lemma low28_bit: "(p :: uint32) \<le> 0xfffffff \<Longrightarrow> bit p n \<Longrightarrow> n < 28"
  using low28 [of p] by (metis bit_take_bit_iff)

lemma bit_flags:
  "bit (0x80000000 :: int) n \<longleftrightarrow> n = 31"
  "bit (0x40000000 :: int) n \<longleftrightarrow> n = 30"
  "bit (0x20000000 :: int) n \<longleftrightarrow> n = 29"
  "bit (0xfffffff :: int) n \<longleftrightarrow> n < 28"
proof -
  have "bit (2 ^ 31 :: int) n \<longleftrightarrow> n = 31"
    unfolding bit_exp_iff by simp
  then show "bit (0x80000000 :: int) n \<longleftrightarrow> n = 31"
    by simp
  have "bit (2 ^ 30 :: int) n \<longleftrightarrow> n = 30"
    unfolding bit_exp_iff by simp
  then show "bit (0x40000000 :: int) n \<longleftrightarrow> n = 30"
    by simp
  have "bit (2 ^ 29 :: int) n \<longleftrightarrow> n = 29"
    unfolding bit_exp_iff by simp
  then show "bit (0x20000000 :: int) n \<longleftrightarrow> n = 29"
    by simp
  have "bit (mask 28 :: int) n \<longleftrightarrow> n < 28"
    unfolding bit_mask_iff by simp
  then show "bit (0xfffffff :: int) n \<longleftrightarrow> n < 28"
    by (simp add: mask_eq_exp_minus_1)
qed

lemma chunk_parent:
  assumes "(p :: uint32) \<le> 0xfffffff"
  shows "(0x80000000 OR (if a then 0x40000000 else 0) OR (if b then 0x20000000 else 0) OR p)
           AND 0xfffffff = p"
  by (rule bit_word_eqI) (auto simp: bit_simps bit_flags dest: low28_bit [OF assms])

lemma chunk_flag:
  "(0x80000000 OR (if a then 0x40000000 else 0) OR (if b then 0x20000000 else 0) OR (p :: uint32))
           AND 0x80000000 \<noteq> 0"
proof -
  have "bit ((0x80000000 OR (if a then 0x40000000 else 0) OR (if b then 0x20000000 else 0) OR p)
           AND (0x80000000 :: uint32)) 31"
    by (simp add: bit_simps bit_flags)
  then show ?thesis
    by auto
qed

lemma chunk_shrink:
  assumes "(p :: uint32) \<le> 0xfffffff"
  shows "((0x80000000 OR (if a then 0x40000000 else 0) OR (if b then 0x20000000 else 0) OR p)
           AND 0x40000000 \<noteq> 0) = a"
proof -
  have "(0x80000000 OR (if a then 0x40000000 else 0) OR (if b then 0x20000000 else 0) OR p)
           AND 0x40000000 = (if a then 0x40000000 else 0)"
    by (rule bit_word_eqI) (auto simp: bit_simps bit_flags dest: low28_bit [OF assms])
  then show ?thesis
    by simp
qed

lemma chunk_shadows:
  assumes "(p :: uint32) \<le> 0xfffffff"
  shows "((0x80000000 OR (if a then 0x40000000 else 0) OR (if b then 0x20000000 else 0) OR p)
           AND 0x20000000 \<noteq> 0) = b"
proof -
  have "(0x80000000 OR (if a then 0x40000000 else 0) OR (if b then 0x20000000 else 0) OR p)
           AND 0x20000000 = (if b then 0x20000000 else 0)"
    by (rule bit_word_eqI) (auto simp: bit_simps bit_flags dest: low28_bit [OF assms])
  then show ?thesis
    by simp
qed

lemma low4: "(t :: uint32) \<le> 0xf \<Longrightarrow> take_bit 4 t = t"
proof -
  assume "t \<le> 0xf"
  then have "t < 2 ^ 4"
    by (simp add: word_le_nat_alt word_less_nat_alt)
  then show ?thesis
    by (simp add: take_bit_eq_mask less_mask_eq)
qed

lemma low4_bit: "(t :: uint32) \<le> 0xf \<Longrightarrow> bit t n \<Longrightarrow> n < 4"
  using low4 [of t] by (metis bit_take_bit_iff)

lemma object_id:
  assumes "(ob :: uint32) \<le> 0xfffffff"
  shows "(ob OR push_bit 28 t) AND 0xfffffff = ob"
  by (rule bit_word_eqI) (auto simp: bit_simps bit_flags dest: low28_bit [OF assms])

lemma object_type:
  assumes "(ob :: uint32) \<le> 0xfffffff" and "(t :: uint32) \<le> 0xf"
  shows "drop_bit 28 (ob OR push_bit 28 t) = t"
  by (rule bit_word_eqI)
     (auto simp: bit_simps bit_flags dest: low28_bit [OF assms(1)] low4_bit [OF assms(2)])

lemma objectIDValid_low28: "objectIDValid ob \<Longrightarrow> ob \<le> 0xfffffff"
proof -
  assume "objectIDValid ob"
  then have "ob \<le> 0x3ffff"
    by (auto simp: objectIDValid_def yaffs_consts split: if_splits)
  then show ?thesis
    by (simp add: word_le_nat_alt)
qed

text \<open>Claim C3, as the code has it. For a raw record whose sequence number passes the
  range check, whose chunk id has the header-info flag \<^verbatim>\<open>0x80000000\<close> set, and whose
  object id with its top four bits cleared is a valid object id, decoding yields
  \<^verbatim>\<open>ExtraValid = true\<close>, chunk id 0, byte count 0, the parent id as the raw chunk id
  without its four flag bits, \<^verbatim>\<open>IsShrink\<close> and \<^verbatim>\<open>Shadows\<close> as the flag bits
  \<^verbatim>\<open>0x40000000\<close> and \<^verbatim>\<open>0x20000000\<close>, the object type as the top four bits of the raw
  object id, and the object id as the raw object id without them. So an extended tag
  encoded from a valid object id, a parent id of at most 28 bits, the two flags and a
  4-bit object type decodes to exactly these values.\<close>

theorem Parse_extended:
  "(0x1000 \<le> SeqNumber s \<and> SeqNumber s \<le> 0xefffff00 \<and> ChunkID s AND 0x80000000 \<noteq> 0 \<and>
    objectIDValid (ObjectID s AND 0xfffffff) \<longrightarrow>
    Parse s =
      Some \<lparr> SeqNumber' = SeqNumber s, ObjectID' = ObjectID s AND 0xfffffff, ChunkID' = 0,
             NumberBytes' = 0, ExtraValid = True, ParentID = ChunkID s AND 0xfffffff,
             IsShrink = (ChunkID s AND 0x40000000 \<noteq> 0),
             Shadows = (ChunkID s AND 0x20000000 \<noteq> 0),
             ObjType = drop_bit 28 (ObjectID s) \<rparr>) \<and>
   (0x1000 \<le> seq \<and> seq \<le> 0xefffff00 \<and> objectIDValid ob \<and> parent \<le> 0xfffffff \<and>
    objType \<le> 0xf \<longrightarrow>
    Parse (spec_encodeExtended seq ob parent shrink shadows objType) =
      Some \<lparr> SeqNumber' = seq, ObjectID' = ob, ChunkID' = 0, NumberBytes' = 0,
             ExtraValid = True, ParentID = parent, IsShrink = shrink, Shadows = shadows,
             ObjType = objType \<rparr>)"
proof (intro conjI impI)
  assume "0x1000 \<le> SeqNumber s \<and> SeqNumber s \<le> 0xefffff00 \<and> ChunkID s AND 0x80000000 \<noteq> 0 \<and>
    objectIDValid (ObjectID s AND 0xfffffff)"
  then show "Parse s =
      Some \<lparr> SeqNumber' = SeqNumber s, ObjectID' = ObjectID s AND 0xfffffff, ChunkID' = 0,
             NumberBytes' = 0, ExtraValid = True, ParentID = ChunkID s AND 0xfffffff,
             IsShrink = (ChunkID s AND 0x40000000 \<noteq> 0),
             Shadows = (ChunkID s AND 0x20000000 \<noteq> 0),
             ObjType = drop_bit 28 (ObjectID s) \<rparr>"
    by (auto simp: Parse_def yaffs_consts)
next
  assume a: "0x1000 \<le> seq \<and> seq \<le> 0xefffff00 \<and> objectIDValid ob \<and> parent \<le> 0xfffffff \<and>
    objType \<le> 0xf"
  let ?raw = "spec_encodeExtended seq ob parent shrink shadows objType"
  from a have ob: "ob \<le> 0xfffffff"
    by (simp add: objectIDValid_low28)
  from a have seq: "0x1000 \<le> SeqNumber ?raw" "SeqNumber ?raw \<le> 0xefffff00"
    by (simp_all add: spec_encodeExtended_def)
  have flag: "ChunkID ?raw AND 0x80000000 \<noteq> 0"
    by (simp only: spec_encodeExtended_def Yaffs2SpareRaw.simps chunk_flag not_False_eq_True)
  from a have fields: "ChunkID ?raw AND 0xfffffff = parent"
    "(ChunkID ?raw AND 0x40000000 \<noteq> 0) = shrink"
    "(ChunkID ?raw AND 0x20000000 \<noteq> 0) = shadows"
    by (simp_all only: spec_encodeExtended_def Yaffs2SpareRaw.simps chunk_parent chunk_shrink
        chunk_shadows)
  from a ob have obj: "ObjectID ?raw AND 0xfffffff = ob" "drop_bit 28 (ObjectID ?raw) = objType"
    by (simp_all only: spec_encodeExtended_def Yaffs2SpareRaw.simps object_id object_type)
  from a obj have valid: "objectIDValid (ObjectID ?raw AND 0xfffffff)"
    by simp
  have "Parse ?raw =
      Some \<lparr> SeqNumber' = SeqNumber ?raw, ObjectID' = ObjectID ?raw AND 0xfffffff, ChunkID' = 0,
             NumberBytes' = 0, ExtraValid = True, ParentID = ChunkID ?raw AND 0xfffffff,
             IsShrink = (ChunkID ?raw AND 0x40000000 \<noteq> 0),
             Shadows = (ChunkID ?raw AND 0x20000000 \<noteq> 0),
             ObjType = drop_bit 28 (ObjectID ?raw) \<rparr>"
    using seq flag valid by (auto simp: Parse_def yaffs_consts)
  then show "Parse ?raw =
      Some \<lparr> SeqNumber' = seq, ObjectID' = ob, ChunkID' = 0, NumberBytes' = 0,
             ExtraValid = True, ParentID = parent, IsShrink = shrink, Shadows = shadows,
             ObjType = objType \<rparr>"
    by (simp only: fields obj) (simp add: spec_encodeExtended_def)
qed

theorem Parse_extended_witness:
  "Parse \<lparr> SeqNumber = 0x1000, ObjectID = 0x30000100, ChunkID = 0xC0000001,
           NumberBytes = 7 \<rparr> =
     Some \<lparr> SeqNumber' = 0x1000, ObjectID' = 0x100, ChunkID' = 0, NumberBytes' = 0,
            ExtraValid = True, ParentID = 1, IsShrink = True, Shadows = False,
            ObjType = 3 \<rparr> \<and>
   Parse (spec_encodeExtended 0x2000 0x101 5 False True 1) =
     Some \<lparr> SeqNumber' = 0x2000, ObjectID' = 0x101, ChunkID' = 0, NumberBytes' = 0,
            ExtraValid = True, ParentID = 5, IsShrink = False, Shadows = True,
            ObjType = 1 \<rparr>"
  using Parse_extended [of "\<lparr> SeqNumber = 0x1000, ObjectID = 0x30000100,
    ChunkID = 0xC0000001, NumberBytes = 7 \<rparr>" "0x2000" "0x101" 5 1 False True]
  by (simp add: objectIDValid_def yaffs_consts)

text \<open>Without the condition on the object id the claim fails: the check after the
  extended fields rejects the record.\<close>

theorem Parse_extended_counterexample:
  "(0x1000 :: uint32) \<le> 0x1000 \<and> (0x1000 :: uint32) \<le> 0xefffff00 \<and>
   (0x80000000 :: uint32) AND 0x80000000 \<noteq> 0 \<and>
   Parse \<lparr> SeqNumber = 0x1000, ObjectID = 0, ChunkID = 0x80000000, NumberBytes = 0 \<rparr> = None"
  by (simp add: Parse_def objectIDValid_def yaffs_consts)

text \<open>Claim C6. For a raw record with a sequence number that passes the range check, the
  header-info flag clear, a valid object id and a chunk id of at most \<^verbatim>\<open>0xfffffff\<close>,
  decoding yields \<^verbatim>\<open>ExtraValid = false\<close> and the object id, chunk id and byte count of
  the raw record unchanged.\<close>

theorem Parse_plain:
  assumes "0x1000 \<le> SeqNumber s" and "SeqNumber s \<le> 0xefffff00"
    and "ChunkID s AND 0x80000000 = 0"
    and "objectIDValid (ObjectID s)"
    and "ChunkID s \<le> 0xfffffff"
  shows "Parse s =
     Some \<lparr> SeqNumber' = SeqNumber s, ObjectID' = ObjectID s, ChunkID' = ChunkID s,
            NumberBytes' = NumberBytes s, ExtraValid = False, ParentID = 0,
            IsShrink = False, Shadows = False, ObjType = 0 \<rparr>"
  using assms by (auto simp: Parse_def yaffs_consts)

theorem Parse_plain_witness:
  "Parse \<lparr> SeqNumber = 0x2000, ObjectID = 0x101, ChunkID = 5, NumberBytes = 2048 \<rparr> =
     Some \<lparr> SeqNumber' = 0x2000, ObjectID' = 0x101, ChunkID' = 5, NumberBytes' = 2048,
            ExtraValid = False, ParentID = 0, IsShrink = False, Shadows = False,
            ObjType = 0 \<rparr>"
  using Parse_plain [of "\<lparr> SeqNumber = 0x2000, ObjectID = 0x101, ChunkID = 5,
    NumberBytes = 2048 \<rparr>"]
  by (simp add: objectIDValid_def yaffs_consts)

section \<open>The read loop\<close>

lemma checkBlockEmpty_spec: "checkBlockEmpty buf = spec_blank buf"
  by (induction buf) (auto simp: spec_blank_def)

text \<open>A buffer of fill bytes is blank, and changing any one byte of it to another value
  makes it non-blank.\<close>

lemma checkBlockEmpty_one_byte:
  "checkBlockEmpty (replicate n 0xFF) \<and>
   (i < n \<longrightarrow> v \<noteq> 0xFF \<longrightarrow> \<not> checkBlockEmpty ((replicate n 0xFF)[i := v]))"
  by (auto simp: checkBlockEmpty_spec spec_blank_def list_all_iff set_update_memI)

text \<open>One iteration of the read loop, in the specification's terms.\<close>

lemma readLoop_unfold:
  "readLoop P S rest pages spares =
     (if spec_live P S rest 0
      then readLoop P S (drop (P + S) rest) (pages @ [take P rest]) (spares @ [take S (drop P rest)])
      else (pages, spares))"
  by (subst readLoop.simps)
     (auto simp: ReadFull_def getEmptyBuf_def spec_live_def spec_full_def spec_pageAt_def
       spec_spareAt_def checkBlockEmpty_spec add.commute)

lemma spec_live_shrinks: "spec_live P S rest 0 \<Longrightarrow> length (drop (P + S) rest) < length rest"
  by (cases "P + S = 0") (auto simp: spec_live_def spec_full_def spec_pageAt_def spec_spareAt_def spec_blank_def)

lemma readLoop_step_induct [case_names step]:
  assumes "\<And>rest pages spares.
     (spec_live P S rest 0 \<Longrightarrow>
        Q (drop (P + S) rest) (pages @ [take P rest]) (spares @ [take S (drop P rest)])) \<Longrightarrow>
     Q rest pages spares"
  shows "Q rest pages spares"
proof (induction "length rest" arbitrary: rest pages spares rule: less_induct)
  case less
  show ?case
    by (rule assms) (rule less, rule spec_live_shrinks)
qed

lemma spec_live_drop:
  "spec_live P S (drop (k * (P + S)) img) 0 = spec_live P S img k"
  by (cases "P + S = 0")
     (auto simp: spec_live_def spec_full_def spec_pageAt_def spec_spareAt_def add.commute add.left_commute)

lemma readLoop_invariant:
  assumes "readLoop P S rest pages spares = (pages', spares')"
    and "rest = drop (length pages * (P + S)) img"
    and "length spares = length pages"
    and "\<forall>i < length pages. spec_live P S img i \<and> pages ! i = spec_pageAt P S img i \<and>
           spares ! i = spec_spareAt P S img i"
  shows "length spares' = length pages' \<and>
     (\<forall>i < length pages'. spec_live P S img i \<and> pages' ! i = spec_pageAt P S img i \<and>
           spares' ! i = spec_spareAt P S img i) \<and>
     \<not> spec_live P S img (length pages')"
  using assms
proof (induction rest pages spares rule: readLoop_step_induct [where P = P and S = S])
  case (step rest pages spares)
  show ?case
  proof (cases "spec_live P S rest 0")
    case False
    with step.prems show ?thesis
      by (subst (asm) readLoop_unfold) (auto simp: spec_live_drop)
  next
    case True
    let ?k = "length pages"
    from True step.prems(2) have live: "spec_live P S img ?k"
      by (simp add: spec_live_drop)
    have pg: "take P rest = spec_pageAt P S img ?k"
      using step.prems(2) by (simp add: spec_pageAt_def)
    have sp: "take S (drop P rest) = spec_spareAt P S img ?k"
      using step.prems(2) by (simp add: spec_spareAt_def add.commute)
    have rest': "drop (P + S) rest = drop (length (pages @ [take P rest]) * (P + S)) img"
      using step.prems(2) by (simp add: add.commute add.left_commute)
    have run: "readLoop P S (drop (P + S) rest) (pages @ [take P rest])
        (spares @ [take S (drop P rest)]) = (pages', spares')"
      using step.prems(1) True by (subst (asm) readLoop_unfold) simp
    have inv: "\<forall>i < length (pages @ [take P rest]).
        spec_live P S img i \<and> (pages @ [take P rest]) ! i = spec_pageAt P S img i \<and>
        (spares @ [take S (drop P rest)]) ! i = spec_spareAt P S img i"
      using step.prems(3,4) live pg sp by (auto simp: nth_append less_Suc_eq)
    show ?thesis
      by (rule step.IH [OF True run rest' _ inv]) (simp add: step.prems(3))
  qed
qed


text \<open>Claim C7. The read loop of \<^verbatim>\<open>main\<close> returns (it is a total function), and it
  returns the pairs of the image in order up to the first pair that is not live: every
  collected pair is full and not blank in both halves, and the pair at which the loop
  stops is short in its page or its spare, or blank in both. A pair with only one blank
  half is live and is collected.\<close>

theorem readLoop_stops_exactly:
  assumes "readLoop P S img [] [] = (pages, spares)"
  shows "length spares = length pages \<and>
     (\<forall>i < length pages. spec_live P S img i \<and> pages ! i = spec_pageAt P S img i \<and>
           spares ! i = spec_spareAt P S img i) \<and>
     \<not> spec_live P S img (length pages)"
  by (rule readLoop_invariant [OF assms]) simp_all

theorem readLoop_stops_exactly_witness:
  "readLoop 2 1 [1, 2, 3, 0xFF, 0xFF, 7, 0xFF, 0xFF, 0xFF, 9, 9, 9] [] [] =
      ([[1, 2], [0xFF, 0xFF]], [[3], [7]]) \<and>
   spec_live 2 1 [1, 2, 3, 0xFF, 0xFF, 7, 0xFF, 0xFF, 0xFF, 9, 9, 9] 1 \<and>
   \<not> spec_live 2 1 [1, 2, 3, 0xFF, 0xFF, 7, 0xFF, 0xFF, 0xFF, 9, 9, 9] 2"
proof -
  let ?img = "[1, 2, 3, 0xFF, 0xFF, 7, 0xFF, 0xFF, 0xFF, 9, 9, 9] :: byte list"
  have run: "readLoop 2 1 ?img [] [] = ([[1, 2], [0xFF, 0xFF]], [[3], [7]])"
    by (simp add: readLoop_unfold spec_live_def spec_full_def spec_pageAt_def
        spec_spareAt_def spec_blank_def)
  from readLoop_stops_exactly [OF run]
  have "(\<forall>i < Suc (Suc 0). spec_live 2 1 ?img i) \<and> \<not> spec_live 2 1 ?img (Suc (Suc 0))"
    by simp
  then have "spec_live 2 1 ?img 1" and "\<not> spec_live 2 1 ?img 2"
    by (simp_all add: numeral_2_eq_2)
  with run show ?thesis
    by simp
qed

section \<open>Geometry detection refines first match\<close>


lemma firstMatch_Nil: "firstMatch ok [] = ([], None)"
  by (simp add: firstMatch_def)

lemma firstMatch_Cons:
  "firstMatch ok (c # cs) =
     (if ok c then ([c], Some c)
      else (case firstMatch ok cs of (tried, r) \<Rightarrow> (c # tried, r)))"
  by (simp add: firstMatch_def)

lemma firstMatch_append:
  "firstMatch ok (xs @ ys) =
     (case firstMatch ok xs of
        (tried, None) \<Rightarrow> (case firstMatch ok ys of (tried', r) \<Rightarrow> (tried @ tried', r))
      | (tried, Some c) \<Rightarrow> (tried, Some c))"
  by (induction xs) (auto simp: firstMatch_Nil firstMatch_Cons split: prod.splits option.splits)


lemma detectRead_two:
  "detectRead P S 0 img [] [] =
     (if spec_live P S img 0
      then (if spec_live P S img 1
            then ([spec_pageAt P S img 0, spec_pageAt P S img 1],
                  [spec_spareAt P S img 0, spec_spareAt P S img 1])
            else ([spec_pageAt P S img 0], [spec_spareAt P S img 0]))
      else ([], []))"
  apply (subst detectRead.simps)
  apply (subst detectRead.simps)
  apply (subst detectRead.simps)
  apply (auto simp: ReadFull_def getEmptyBuf_def spec_live_def spec_full_def spec_pageAt_def
       spec_spareAt_def checkBlockEmpty_spec add.commute add.left_commute)
  done

lemma readSpareRaw_spec:
  "skip + 16 \<le> length spare \<Longrightarrow>
   readSpareRaw LittleEndian skip spare = Inr (spec_rawTag skip spare)"
  by (simp add: readSpareRaw_def spec_rawTag_def bytesAt_def Let_def add.commute)

lemma length_spec_spareAt: "spec_full P S img i \<Longrightarrow> length (spec_spareAt P S img i) = S"
  by (auto simp: spec_full_def spec_spareAt_def)

lemma length_spec_pageAt: "spec_full P S img i \<Longrightarrow> length (spec_pageAt P S img i) = P"
  by (auto simp: spec_full_def spec_pageAt_def)

lemma probe_spec:
  assumes "K + 16 \<le> S"
  shows "probe img P S K =
     Inr (if spec_candidateOK img (P, S, K) then Some (settingsOf (P, S, K)) else None)"
proof (cases "spec_live P S img 0 \<and> spec_live P S img 1")
  case False
  then show ?thesis
    by (auto simp: probe_def detectRead_two spec_candidateOK_def)
next
  case True
  then have "length (spec_spareAt P S img 0) = S" "length (spec_spareAt P S img 1) = S"
    by (simp_all add: spec_live_def length_spec_spareAt)
  with assms have
    "readSpareRaw LittleEndian K (spec_spareAt P S img 0) = Inr (spec_rawTag K (spec_spareAt P S img 0))"
    "readSpareRaw LittleEndian K (spec_spareAt P S img 1) = Inr (spec_rawTag K (spec_spareAt P S img 1))"
    by (simp_all add: readSpareRaw_spec)
  with True show ?thesis
    by (auto simp: probe_def detectRead_two spec_candidateOK_def settingsOf_def
        split: option.splits)
qed

lemma skipLoop_spec:
  "\<forall>K \<in> set Ks. K + 16 \<le> S \<Longrightarrow>
   skipLoop img P S Ks =
     (case firstMatch (spec_candidateOK img) (map (\<lambda>K. (P, S, K)) Ks) of
        (tried, r) \<Rightarrow> (tried, Inr (map_option settingsOf r)))"
  by (induction Ks) (auto simp: firstMatch_Nil firstMatch_Cons probe_spec split: prod.splits)

lemma spareLoop_spec:
  "\<forall>S \<in> set Ss. \<forall>K \<in> set Ks. K + 16 \<le> S \<Longrightarrow>
   spareLoop img P Ss Ks =
     (case firstMatch (spec_candidateOK img)
             (concat (map (\<lambda>S. map (\<lambda>K. (P, S, K)) Ks) Ss)) of
        (tried, r) \<Rightarrow> (tried, Inr (map_option settingsOf r)))"
  by (induction Ss)
     (auto simp: firstMatch_Nil firstMatch_append skipLoop_spec split: prod.splits option.splits)

lemma pageLoop_spec:
  "\<forall>S \<in> set Ss. \<forall>K \<in> set Ks. K + 16 \<le> S \<Longrightarrow>
   pageLoop img Ps Ss Ks =
     (case firstMatch (spec_candidateOK img)
             (concat (map (\<lambda>P. concat (map (\<lambda>S. map (\<lambda>K. (P, S, K)) Ks) Ss)) Ps)) of
        (tried, r) \<Rightarrow> (tried, Inr (map_option settingsOf r)))"
  by (induction Ps)
     (auto simp: firstMatch_Nil firstMatch_append spareLoop_spec split: prod.splits option.splits)

lemma pageLoop_candidates:
  "pageLoop img pageSizes spareSizes spareSkip =
     (case firstMatch (spec_candidateOK img) candidates of
        (tried, r) \<Rightarrow> (tried, Inr (map_option settingsOf r)))"
proof -
  have "\<forall>S \<in> set spareSizes. \<forall>K \<in> set spareSkip. K + 16 \<le> S"
    by (simp add: spareSizes_def spareSkip_def)
  then show ?thesis
    unfolding candidates_def
    by (subst pageLoop_spec) (simp_all add: pageSizes_def spareSizes_def spareSkip_def)
qed

lemma detectSettings_refines:
  "detectSettings img =
     (case firstMatch (spec_candidateOK img) candidates of
        (tried, None) \<Rightarrow> (tried, Inr (Inl NoSuitableSettings))
      | (tried, Some c) \<Rightarrow> (tried, Inr (Inr (settingsOf c))))"
  by (simp add: detectSettings_def pageLoop_candidates split: prod.splits option.splits)


text \<open>Claim C2. \<^verbatim>\<open>detectSettings\<close> examines the candidates in the order of the Cartesian
  product (page sizes 1024 to 16384 outermost, then spare sizes 32 to 512, skip offsets 0
  and 2 innermost) up to and including the first one that passes, and returns the
  settings of that candidate; no later candidate is examined. A candidate passes when
  two full page and spare pairs can be read and neither pair is blank in both halves,
  the tag of pair 0 decodes as valid with chunk id 0, and the tag of pair 1 decodes as
  valid. When none passes, all candidates have been examined and the error is returned.\<close>

theorem detectSettings_first_match:
  "detectSettings img =
     (takeWhile (\<lambda>c. \<not> spec_candidateOK img c) candidates @
        take 1 (dropWhile (\<lambda>c. \<not> spec_candidateOK img c) candidates),
      case List.find (spec_candidateOK img) candidates of
        None \<Rightarrow> Inr (Inl NoSuitableSettings)
      | Some c \<Rightarrow> Inr (Inr (settingsOf c)))"
  by (simp add: detectSettings_refines firstMatch_def split: option.splits)

theorem detectSettings_first_match_witness:
  "detectSettings
     (replicate 1024 0x41 @
      ([0xFF, 0xFF, 0, 0x10, 0, 0, 0, 1, 0, 0, 0, 0, 0, 0, 0, 0, 0, 0] @ replicate 14 0xFF) @
      replicate 1024 0x41 @
      ([0xFF, 0xFF, 0, 0x10, 0, 0, 0, 1, 0, 0, 1, 0, 0, 0, 0, 4, 0, 0] @ replicate 14 0xFF)) =
   ([(1024, 32, 0), (1024, 32, 2)],
    Inr (Inr \<lparr> PageSize = 1024, SpareSize = 32, SpareSkip = 2, ByteOrder = LittleEndian \<rparr>))"
proof -
  define pg :: "byte list" where "pg = replicate 1024 0x41"
  define s0 :: "byte list" where
    "s0 = [0xFF, 0xFF, 0, 0x10, 0, 0, 0, 1, 0, 0, 0, 0, 0, 0, 0, 0, 0, 0] @ replicate 14 0xFF"
  define s1 :: "byte list" where
    "s1 = [0xFF, 0xFF, 0, 0x10, 0, 0, 0, 1, 0, 0, 1, 0, 0, 0, 0, 4, 0, 0] @ replicate 14 0xFF"
  define img where "img = pg @ s0 @ pg @ s1"
  have len: "length pg = 1024" "length s0 = 32" "length s1 = 32"
    by (simp_all add: pg_def s0_def s1_def)
  have pages: "spec_pageAt 1024 32 img 0 = pg" "spec_pageAt 1024 32 img (Suc 0) = pg"
    by (simp_all add: spec_pageAt_def img_def len)
  have spares: "spec_spareAt 1024 32 img 0 = s0" "spec_spareAt 1024 32 img (Suc 0) = s1"
    by (simp_all add: spec_spareAt_def img_def len)
  have nonblank: "\<not> spec_blank pg"
    by (simp add: spec_blank_def list_all_iff pg_def)
  have full: "spec_full 1024 32 img 0" "spec_full 1024 32 img (Suc 0)"
    by (simp_all add: spec_full_def img_def len)
  have live: "spec_live 1024 32 img 0" "spec_live 1024 32 img (Suc 0)"
    using nonblank full by (simp_all add: spec_live_def pages)
  have tags0: "Parse (spec_rawTag 0 s0) = None"
    by (simp add: s0_def spec_rawTag_def bytesAt_def Uint32_def Parse_def objectIDValid_def
        yaffs_consts)
  have tags2: "Parse (spec_rawTag 2 s0) =
      Some \<lparr> SeqNumber' = 0x1000, ObjectID' = 0x100, ChunkID' = 0, NumberBytes' = 0,
             ExtraValid = False, ParentID = 0, IsShrink = False, Shadows = False, ObjType = 0 \<rparr>"
    "Parse (spec_rawTag 2 s1) =
      Some \<lparr> SeqNumber' = 0x1000, ObjectID' = 0x100, ChunkID' = 1, NumberBytes' = 0x400,
             ExtraValid = False, ParentID = 0, IsShrink = False, Shadows = False, ObjType = 0 \<rparr>"
    by (simp_all add: s0_def s1_def spec_rawTag_def bytesAt_def Uint32_def Parse_def
        objectIDValid_def yaffs_consts)
  have no: "\<not> spec_candidateOK img (1024, 32, 0)"
    by (simp add: spec_candidateOK_def spares tags0)
  have yes: "spec_candidateOK img (1024, 32, 2)"
    using live by (simp add: spec_candidateOK_def spares tags2)
  have cs: "candidates = (1024, 32, 0) # (1024, 32, 2) # drop 2 candidates"
    by (simp add: candidates_def)
  have "takeWhile (\<lambda>c. \<not> spec_candidateOK img c) candidates = [(1024, 32, 0)]"
    and "take 1 (dropWhile (\<lambda>c. \<not> spec_candidateOK img c) candidates) = [(1024, 32, 2)]"
    and "List.find (spec_candidateOK img) candidates = Some (1024, 32, 2)"
    by (subst cs, simp add: no yes)+
  with detectSettings_first_match [of img] show ?thesis
    by (simp add: settingsOf_def img_def pg_def s0_def s1_def)
qed

section \<open>The scan loop\<close>

text \<open>\<^verbatim>\<open>CToGoString\<close> cuts its argument at the first zero byte.\<close>

lemma lastBeforeNul_eq:
  "lastBeforeNul n i c =
     (if takeWhile (\<lambda>b. b \<noteq> 0) c = [] then n
      else i + int (length (takeWhile (\<lambda>b. b \<noteq> 0) c)) - 1)"
  by (induction c arbitrary: n i) auto

lemma CToGoString_takeWhile: "CToGoString c = takeWhile (\<lambda>b. b \<noteq> 0) c"
proof -
  have "take (length (takeWhile (\<lambda>b. b \<noteq> 0) c)) c = takeWhile (\<lambda>b. b \<noteq> 0) c"
    by (metis takeWhile_eq_take)
  then show ?thesis
    by (auto simp: CToGoString_def lastBeforeNul_eq)
qed

text \<open>The scan of a concatenation: the second part is scanned only when the scan of the
  first part has run to its end.\<close>

lemma scanLoop_append:
  "length xs = length ys \<Longrightarrow>
   scanLoop st (xs @ xs') (ys @ ys') =
     (case scanLoop st xs ys of
        (hs, Finished) \<Rightarrow> (case scanLoop st xs' ys' of (hs', r) \<Rightarrow> (hs @ hs', r))
      | (hs, r) \<Rightarrow> (hs, r))"
proof (induction xs ys rule: list_induct2)
  case Nil
  show ?case by (simp split: prod.splits)
next
  case (Cons x xs y ys)
  then show ?case
    by (simp split: sum.splits option.splits prod.splits status.splits)
qed

lemma readLoop_lengths:
  "length pages = length spares \<Longrightarrow>
   length (fst (readLoop P S rest pages spares)) = length (snd (readLoop P S rest pages spares))"
proof (induction rest pages spares rule: readLoop_step_induct [where P = P and S = S])
  case (step rest pages spares)
  then show ?case
    by (subst (1 2) readLoop_unfold) simp
qed

lemma readSpareRaw_fatal:
  "readSpareRaw order skip spare = Inl f \<Longrightarrow> f = SliceBoundsOutOfRange \<or> f = BinaryReadFailed"
  by (auto simp: readSpareRaw_def Let_def split: if_splits)

lemma decodeObjectHeader_fatal:
  "decodeObjectHeader order page = Inl f \<Longrightarrow> f = BinaryReadFailed"
  by (auto simp: decodeObjectHeader_def split: if_splits)

lemma scanLoop_no_mismatch: "snd (scanLoop st pages spares) \<noteq> Died PageSpareMismatch"
proof (induction pages arbitrary: spares)
  case Nil
  show ?case by simp
next
  case (Cons page pages)
  show ?case
  proof (cases spares)
    case Nil
    then show ?thesis by simp
  next
    case (Cons spareBuf spares')
    with Cons.IH [of spares'] show ?thesis
      by (auto split: sum.splits option.splits prod.splits
          dest: readSpareRaw_fatal decodeObjectHeader_fatal)
  qed
qed

lemma scanImage_no_mismatch: "snd (scanImage st img) \<noteq> Died PageSpareMismatch"
proof -
  have "length (fst (readLoop (PageSize st) (SpareSize st) img [] [])) =
        length (snd (readLoop (PageSize st) (SpareSize st) img [] []))"
    by (rule readLoop_lengths) simp
  then show ?thesis
    by (auto simp: scanImage_def scanLoop_no_mismatch split: prod.splits)
qed

lemma detectSettings_no_fatal: "snd (detectSettings img) \<noteq> Inl f"
  by (simp add: detectSettings_refines split: prod.splits option.splits)

lemma main_no_mismatch: "snd (main img) \<noteq> Died PageSpareMismatch"
  using detectSettings_no_fatal [of img]
  by (auto simp: main_def chooseSettings_def scanImage_no_mismatch split: sum.splits)

text \<open>Claim C10. The read loop returns as many page buffers as spare buffers, so neither
  the scan of an image nor \<^verbatim>\<open>main\<close> ever ends in the fatal error
  \<^verbatim>\<open>Page / Spare Mismatch\<close>.\<close>

theorem pages_spares_same_length:
  "length (fst (readLoop P S img [] [])) = length (snd (readLoop P S img [] [])) \<and>
   snd (scanImage st img) \<noteq> Died PageSpareMismatch \<and>
   snd (main img) \<noteq> Died PageSpareMismatch"
  by (simp add: readLoop_lengths scanImage_no_mismatch main_no_mismatch)

theorem pages_spares_same_length_witness:
  "length (fst (readLoop 2 1 [1, 2, 3, 4, 5, 6, 7] [] [])) = 2 \<and>
   length (snd (readLoop 2 1 [1, 2, 3, 4, 5, 6, 7] [] [])) = 2 \<and>
   snd (main [1, 2, 3, 4, 5, 6, 7]) \<noteq> Died PageSpareMismatch"
proof -
  have "readLoop 2 1 [1, 2, 3, 4, 5, 6, 7] [] [] = ([[1, 2], [4, 5]], [[3], [6]])"
    by (simp add: readLoop_unfold spec_live_def spec_full_def spec_pageAt_def
        spec_spareAt_def spec_blank_def)
  with pages_spares_same_length [of 2 1 "[1, 2, 3, 4, 5, 6, 7]"]
  show ?thesis
    by simp
qed

text \<open>Claim C4. Let the scan reach a pair (the pairs before it are scanned to the end,
  with the same number of pages and spares) whose tag decodes with chunk id 0 and whose
  page decodes as an object header. If the checksum field of the header is not
  \<^verbatim>\<open>FF FF\<close>, the scan stops there: its output is the headers of the earlier pairs, without
  one for this pair, whatever pairs follow. Otherwise the header is printed and the scan
  goes on with the next pair.\<close>

theorem scanLoop_checksum:
  assumes "length pre = length pre'"
    and "scanLoop st pre pre' = (hs, Finished)"
    and "readSpareRaw (ByteOrder st) (SpareSkip st) spareBuf = Inr raw"
    and "Parse raw = Some tag" and "ChunkID' tag = 0"
    and "decodeObjectHeader (ByteOrder st) page = Inr header"
  shows "scanLoop st (pre @ page # post) (pre' @ spareBuf # post') =
     (if Checksum header \<noteq> [0xFF, 0xFF] then (hs, Stopped)
      else (case scanLoop st post post' of
              (hs', r) \<Rightarrow> (hs @ (ObjectType header, CToGoString (Name header)) # hs', r)))"
  using assms by (simp add: scanLoop_append split: prod.splits)

theorem scanLoop_checksum_witness:
  "scanLoop \<lparr> PageSize = 510, SpareSize = 16, SpareSkip = 0, ByteOrder = LittleEndian \<rparr>
     [replicate 510 0, replicate 510 0xFF]
     [[0, 0x10, 0, 0, 0, 1, 0, 0, 0, 0, 0, 0, 0, 0, 0, 0],
      [0, 0x10, 0, 0, 0, 1, 0, 0, 0, 0, 0, 0, 0, 0, 0, 0]] = ([], Stopped)"
proof -
  let ?st = "\<lparr> PageSize = 510, SpareSize = 16, SpareSkip = 0, ByteOrder = LittleEndian \<rparr>"
  let ?spare = "[0, 0x10, 0, 0, 0, 1, 0, 0, 0, 0, 0, 0, 0, 0, 0, 0] :: byte list"
  let ?raw = "\<lparr> SeqNumber = 0x1000, ObjectID = 0x100, ChunkID = 0, NumberBytes = 0 \<rparr>"
  let ?tag = "\<lparr> SeqNumber' = 0x1000, ObjectID' = 0x100, ChunkID' = 0, NumberBytes' = 0,
       ExtraValid = False, ParentID = 0, IsShrink = False, Shadows = False, ObjType = 0 \<rparr>"
  have raw: "readSpareRaw (ByteOrder ?st) (SpareSkip ?st) ?spare = Inr ?raw"
    by (simp add: readSpareRaw_def Uint32_def bytesAt_def)
  have tag: "Parse ?raw = Some ?tag"
    by (simp add: Parse_def objectIDValid_def yaffs_consts)
  obtain header where dec: "decodeObjectHeader (ByteOrder ?st) (replicate 510 0) = Inr header"
    and sum: "Checksum header = replicate 2 0"
    by (simp add: decodeObjectHeader_def sizeofObjectHeader_def bytesAt_def)
  have "replicate 2 (0 :: byte) = [0, 0]"
    by (simp add: numeral_2_eq_2)
  with sum have bad: "Checksum header \<noteq> [0xFF, 0xFF]"
    by simp
  from scanLoop_checksum [of "[]" "[]" ?st "[]" ?spare ?raw ?tag "replicate 510 0" header
      "[replicate 510 0xFF]" "[?spare]", OF _ _ raw tag _ dec] bad
  show ?thesis
    by simp
qed

text \<open>Claim C8. A pair whose spare tag the decoder rejects is skipped: the scan of the
  pairs with it is the scan of the pairs without it, in output and in the way it ends.\<close>

theorem scanLoop_skips_invalid:
  assumes "length pre = length pre'"
    and "readSpareRaw (ByteOrder st) (SpareSkip st) spareBuf = Inr raw"
    and "Parse raw = None"
  shows "scanLoop st (pre @ page # post) (pre' @ spareBuf # post') =
         scanLoop st (pre @ post) (pre' @ post')"
  using assms by (simp add: scanLoop_append split: prod.splits status.splits)

theorem scanLoop_skips_invalid_witness:
  "scanLoop \<lparr> PageSize = 510, SpareSize = 16, SpareSkip = 0, ByteOrder = LittleEndian \<rparr>
     [replicate 510 0xFF, replicate 510 0]
     [replicate 16 0, [0, 0x10, 0, 0, 0, 1, 0, 0, 1, 0, 0, 0, 0, 0, 0, 0]] =
   scanLoop \<lparr> PageSize = 510, SpareSize = 16, SpareSkip = 0, ByteOrder = LittleEndian \<rparr>
     [replicate 510 0]
     [[0, 0x10, 0, 0, 0, 1, 0, 0, 1, 0, 0, 0, 0, 0, 0, 0]]"
proof -
  let ?st = "\<lparr> PageSize = 510, SpareSize = 16, SpareSkip = 0, ByteOrder = LittleEndian \<rparr>"
  let ?raw = "\<lparr> SeqNumber = 0, ObjectID = 0, ChunkID = 0, NumberBytes = 0 \<rparr>"
  have raw: "readSpareRaw (ByteOrder ?st) (SpareSkip ?st) (replicate 16 0) = Inr ?raw"
    by (simp add: readSpareRaw_def Uint32_def bytesAt_def)
  have bad: "Parse ?raw = None"
    by (simp add: Parse_def yaffs_consts)
  from scanLoop_skips_invalid [of "[]" "[]" ?st "replicate 16 0" ?raw "replicate 510 0xFF"
      "[replicate 510 0]" "[[0, 0x10, 0, 0, 0, 1, 0, 0, 1, 0, 0, 0, 0, 0, 0, 0]]", OF _ raw bad]
  show ?thesis
    by simp
qed

section \<open>Detection failure\<close>

lemma readLoop_buffer_lengths:
  assumes "readLoop P S img [] [] = (pages, spares)"
  shows "length pages = length spares \<and> (\<forall>p \<in> set pages. length p = P) \<and>
         (\<forall>s \<in> set spares. length s = S)"
proof -
  from readLoop_invariant [OF assms, of img] have len: "length spares = length pages"
    and inv: "\<forall>i < length pages. spec_live P S img i \<and> pages ! i = spec_pageAt P S img i \<and>
           spares ! i = spec_spareAt P S img i"
    by simp_all
  have "length p = P" if "p \<in> set pages" for p
  proof -
    from that obtain i where "i < length pages" "p = pages ! i"
      by (auto simp: in_set_conv_nth)
    with inv show ?thesis
      by (simp add: spec_live_def length_spec_pageAt)
  qed
  moreover have "length s = S" if "s \<in> set spares" for s
  proof -
    from that len obtain i where "i < length pages" "s = spares ! i"
      by (auto simp: in_set_conv_nth)
    with inv show ?thesis
      by (simp add: spec_live_def length_spec_spareAt)
  qed
  ultimately show ?thesis
    using len by simp
qed

lemma scanLoop_never_dies:
  assumes "length pages = length spares"
    and "\<forall>p \<in> set pages. sizeofObjectHeader \<le> length p"
    and "\<forall>s \<in> set spares. SpareSkip st + 16 \<le> length s"
  shows "snd (scanLoop st pages spares) \<noteq> Died f"
  using assms
proof (induction pages spares rule: list_induct2)
  case Nil
  show ?case by simp
next
  case (Cons p ps s ss)
  then show ?case
    by (auto simp: readSpareRaw_def decodeObjectHeader_def Let_def
        split: sum.splits option.splits prod.splits if_splits)
qed

lemma scanImage_never_dies:
  assumes "sizeofObjectHeader \<le> PageSize st" and "SpareSkip st + 16 \<le> SpareSize st"
  shows "snd (scanImage st img) \<noteq> Died f"
proof -
  obtain pages spares where run: "readLoop (PageSize st) (SpareSize st) img [] [] = (pages, spares)"
    by (cases "readLoop (PageSize st) (SpareSize st) img [] []")
  from readLoop_buffer_lengths [OF run] assms
  have "length pages = length spares" "\<forall>p \<in> set pages. sizeofObjectHeader \<le> length p"
    "\<forall>s \<in> set spares. SpareSkip st + 16 \<le> length s"
    by simp_all
  then have "snd (scanLoop st pages spares) \<noteq> Died f"
    by (rule scanLoop_never_dies)
  with run \<open>length pages = length spares\<close> show ?thesis
    by (simp add: scanImage_def)
qed

lemma candidates_sane:
  "\<forall>c \<in> set candidates. sizeofObjectHeader \<le> PageSize (settingsOf c) \<and>
      SpareSkip (settingsOf c) + 16 \<le> SpareSize (settingsOf c)"
  by (simp add: candidates_def settingsOf_def sizeofObjectHeader_def)

lemma chooseSettings_sane:
  "\<exists>st. chooseSettings img = Inr st \<and> sizeofObjectHeader \<le> PageSize st \<and>
      SpareSkip st + 16 \<le> SpareSize st"
proof (cases "List.find (spec_candidateOK img) candidates")
  case None
  then show ?thesis
    by (simp add: chooseSettings_def detectSettings_refines firstMatch_def sizeofObjectHeader_def)
next
  case (Some c)
  then have "c \<in> set candidates"
    by (auto simp: find_Some_iff)
  with candidates_sane Some show ?thesis
    by (simp add: chooseSettings_def detectSettings_refines firstMatch_def)
qed

lemma main_never_dies: "snd (main img) \<noteq> Died f"
proof -
  from chooseSettings_sane [of img] obtain st where "chooseSettings img = Inr st"
    and "sizeofObjectHeader \<le> PageSize st" and "SpareSkip st + 16 \<le> SpareSize st"
    by blast
  then show ?thesis
    by (simp add: main_def scanImage_never_dies)
qed

text \<open>Claim C9. If no candidate geometry passes, \<^verbatim>\<open>detectSettings\<close> returns its error
  (no fatal exit), and \<^verbatim>\<open>main\<close> goes on with page size 2048, spare size 64, skip 0 and
  little-endian byte order: it scans the image under these settings, and that scan does
  not end in a fatal error either.\<close>

theorem detectSettings_not_detected:
  assumes "\<forall>c \<in> set candidates. \<not> spec_candidateOK img c"
  shows "snd (detectSettings img) = Inr (Inl NoSuitableSettings) \<and>
     chooseSettings img =
       Inr \<lparr> PageSize = 2048, SpareSize = 64, SpareSkip = 0, ByteOrder = LittleEndian \<rparr> \<and>
     main img =
       scanImage \<lparr> PageSize = 2048, SpareSize = 64, SpareSkip = 0, ByteOrder = LittleEndian \<rparr> img \<and>
     snd (main img) \<noteq> Died f"
proof -
  from assms have "List.find (spec_candidateOK img) candidates = None"
    by (simp add: find_None_iff)
  then have "snd (detectSettings img) = Inr (Inl NoSuitableSettings)"
    by (simp add: detectSettings_refines firstMatch_def)
  then have "chooseSettings img =
       Inr \<lparr> PageSize = 2048, SpareSize = 64, SpareSkip = 0, ByteOrder = LittleEndian \<rparr>"
    by (simp add: chooseSettings_def)
  with \<open>snd (detectSettings img) = Inr (Inl NoSuitableSettings)\<close> main_never_dies [of img f]
  show ?thesis
    by (simp add: main_def)
qed

theorem detectSettings_not_detected_witness:
  "snd (detectSettings [0, 1, 2]) = Inr (Inl NoSuitableSettings) \<and>
   chooseSettings [0, 1, 2] =
     Inr \<lparr> PageSize = 2048, SpareSize = 64, SpareSkip = 0, ByteOrder = LittleEndian \<rparr> \<and>
   main [0, 1, 2] = ([], Finished)"
proof -
  have none: "\<forall>c \<in> set candidates. \<not> spec_candidateOK [0, 1, 2] c"
    by (simp add: candidates_def spec_candidateOK_def spec_live_def spec_full_def)
  have "scanImage \<lparr> PageSize = 2048, SpareSize = 64, SpareSkip = 0, ByteOrder = LittleEndian \<rparr>
      [0, 1, 2] = ([], Finished)"
    by (simp add: scanImage_def readLoop_unfold spec_live_def spec_full_def)
  with detectSettings_not_detected [OF none] show ?thesis
    by simp
qed

end
